theory Spec2Isabelle
  imports Complex_Main "HOL-Library.AList"
begin

section \<open>JavaScript values as the program handles them\<close>

text \<open>
  Everything the store persists goes through \<open>JSON.stringify\<close> and comes back through
  \<open>JSON.parse\<close>, so a value of the program is a JSON value. An object is an association
  list in insertion order (the order \<open>Object.entries\<close> iterates); a property that is
  absent reads as \<open>undefined\<close>, which is \<open>None\<close> here. Numbers are the finite numbers JSON
  can hold, taken as rationals. Two things of JavaScript objects are not told apart: keys
  that look like array indices, which are iterated first and in ascending order whatever
  the order of insertion, and the names inherited from \<open>Object.prototype\<close>; the program
  writes no such key and reads no such name.
\<close>

datatype jsval =
    JNull
  | JBool bool
  | JNum rat
  | JStr string
  | JArr "jsval list"
  | JObj "(string \<times> jsval) list"

text \<open>The result of \<open>Number(x)\<close>: a finite number, \<open>NaN\<close> or an infinity.\<close>

datatype jsnum = Fin rat | NaN | PosInf | NegInf

text \<open>Truthiness, as \<open>!x\<close>, \<open>x && y\<close> and \<open>x || y\<close> read it.\<close>

fun truthy :: "jsval \<Rightarrow> bool" where
  "truthy JNull = False"
| "truthy (JBool b) = b"
| "truthy (JNum r) = (r \<noteq> 0)"
| "truthy (JStr s) = (s \<noteq> [])"
| "truthy (JArr xs) = True"
| "truthy (JObj fs) = True"

fun truthy_opt :: "jsval option \<Rightarrow> bool" where
  "truthy_opt None = False"
| "truthy_opt (Some v) = truthy v"

text \<open>\<open>v && typeof v === "object"\<close>: arrays and objects (\<open>null\<close> is falsy).\<close>

fun object_typed :: "jsval \<Rightarrow> bool" where
  "object_typed (JArr xs) = True"
| "object_typed (JObj fs) = True"
| "object_typed v = False"

fun object_typed_opt :: "jsval option \<Rightarrow> bool" where
  "object_typed_opt None = False"
| "object_typed_opt (Some v) = object_typed v"

text \<open>
  \<open>isPlainObject\<close> of storage.js: truthy, of type object, and
  \<open>Object.prototype.toString\<close> gives \<open>[object Object]\<close>; an array gives \<open>[object Array]\<close>.
\<close>

fun isPlainObject :: "jsval \<Rightarrow> bool" where
  "isPlainObject (JObj fs) = True"
| "isPlainObject v = False"

fun isPlainObject_opt :: "jsval option \<Rightarrow> bool" where
  "isPlainObject_opt None = False"
| "isPlainObject_opt (Some v) = isPlainObject v"

text \<open>
  Reading a named property \<open>v.k\<close> of a value that is not \<open>null\<close>. The names the program
  reads are neither indices nor \<open>length\<close>, so an array, a string, a number and a boolean
  have none of them.
\<close>

fun get_prop :: "jsval \<Rightarrow> string \<Rightarrow> jsval option" where
  "get_prop (JObj fs) k = map_of fs k"
| "get_prop v k = None"

text \<open>The assignment \<open>o[k] = v\<close> on an object: in place when the key exists, else appended.\<close>

fun set_prop :: "jsval \<Rightarrow> string \<Rightarrow> jsval \<Rightarrow> jsval" where
  "set_prop (JObj fs) k v = JObj (AList.update k v fs)"
| "set_prop x k v = x"

text \<open>An object as JavaScript has it: no key twice, at any depth below objects.\<close>

fun distinct_keys :: "jsval \<Rightarrow> bool" where
  "distinct_keys (JObj fs) = (distinct (map fst fs) \<and> list_all distinct_keys (map snd fs))"
| "distinct_keys v = True"

section \<open>storage.js\<close>

subsection \<open>mergeDeep\<close>

function (sequential) mergeDeep :: "jsval \<Rightarrow> jsval \<Rightarrow> jsval"
  and merge_entries :: "(string \<times> jsval) list \<Rightarrow> (string \<times> jsval) list \<Rightarrow> (string \<times> jsval) list"
where
  "mergeDeep (JObj t) (JObj s) = JObj (merge_entries t s)"
| "mergeDeep target source = source"
| "merge_entries out [] = out"
| "merge_entries out ((key, value) # rest) =
     merge_entries
       (AList.update key
          (if isPlainObject value \<and> isPlainObject_opt (map_of out key)
           then (case map_of out key of Some o' \<Rightarrow> mergeDeep o' value | None \<Rightarrow> value)
           else value)
          out)
       rest"
  by pat_completeness auto
termination
  by (relation "measure (\<lambda>x. case x of
        Inl (t, s) \<Rightarrow> 2 * size s
      | Inr (out, s) \<Rightarrow> Suc (2 * size_list (size_prod (\<lambda>x. 0) size) s))")
     auto

text \<open>
  The value the loop of \<open>mergeDeep\<close> assigns to \<open>out[key]\<close>, given the value \<open>old\<close>
  that \<open>out[key]\<close> holds before.
\<close>

definition merge_value :: "jsval option \<Rightarrow> jsval \<Rightarrow> jsval" where
  "merge_value old v =
     (if isPlainObject v \<and> isPlainObject_opt old
      then (case old of Some o' \<Rightarrow> mergeDeep o' v | None \<Rightarrow> v)
      else v)"

subsection \<open>The store\<close>

text \<open>
  \<open>state_item\<close> and \<open>legacy_item\<close> are the two localStorage entries
  (\<open>blwcare.state.v1\<close>, \<open>blwcare.history.v1\<close>) as \<open>JSON.parse\<close> reads them: \<open>None\<close> is an
  absent (or empty) entry, for which \<open>getItem(..) || "null"\<close> parses to \<open>null\<close>, and an
  entry that does not parse is \<open>Some JNull\<close>, the fallback of \<open>safeParse\<close>. What
  \<open>setItem\<close> stores is \<open>JSON.stringify\<close> of a state, which parses back to that state.
  \<open>timeline n\<close> is what the \<open>n\<close>-th reading of the clock (\<open>new Date().toISOString()\<close>)
  returns and \<open>ticks\<close> counts the readings made so far.
\<close>

record world =
  state_item :: "jsval option"
  legacy_item :: "jsval option"
  ticks :: nat
  timeline :: "nat \<Rightarrow> string"

datatype backup_error =
    FormatoInvalido | VersionNoSoportada | FaltaDiary | FaltaAllergens
  | FaltaMilestones | FaltaBabyProfile

datatype error = TypeError | BackupError backup_error

text \<open>
  \<open>nowIso\<close>: \<open>toISOString\<close> throws only on an invalid date, which \<open>new Date()\<close> is not,
  so the \<open>catch\<close> branch that returns \<open>null\<close> is never taken.
\<close>

definition nowIso :: "world \<Rightarrow> jsval \<times> world" where
  "nowIso w = (JStr (timeline w (ticks w)), w\<lparr>ticks := Suc (ticks w)\<rparr>)"

definition default_diary :: jsval where
  "default_diary = JObj [(''entries'', JArr [])]"

definition default_allergens :: jsval where
  "default_allergens = JObj [(''statuses'', JObj [])]"

definition default_milestones :: jsval where
  "default_milestones = JObj [(''seated'', JBool False), (''noExtrusion'', JBool False),
     (''interestInFood'', JBool False), (''handToMouth'', JBool False)]"

definition default_babyProfile :: jsval where
  "default_babyProfile = JObj [(''birthDate'', JNull), (''gestationWeeks'', JNull),
     (''dueDate'', JNull)]"

definition getDefaultState :: "world \<Rightarrow> jsval \<times> world" where
  "getDefaultState w =
     (let (created, w1) = nowIso w;
          (updated, w2) = nowIso w1
      in (JObj [(''version'', JNum 1), (''createdAt'', created), (''updatedAt'', updated),
                (''diary'', default_diary), (''allergens'', default_allergens),
                (''milestones'', default_milestones), (''babyProfile'', default_babyProfile)],
          w2))"

definition normalizeState :: "jsval \<Rightarrow> world \<Rightarrow> jsval \<times> world" where
  "normalizeState raw w =
     (let (defaults, w1) = getDefaultState w in
      if \<not> truthy raw \<or> \<not> object_typed raw then (defaults, w1)
      else if get_prop raw ''version'' \<noteq> Some (JNum 1) then (defaults, w1)
      else
        (let merged = mergeDeep defaults raw;
             merged1 = set_prop merged ''version'' (JNum 1);
             (t, w2) = nowIso w1
         in (set_prop merged1 ''updatedAt'' t, w2)))"

definition readStateFromStorage :: "world \<Rightarrow> jsval \<times> world" where
  "readStateFromStorage w =
     normalizeState (case state_item w of None \<Rightarrow> JNull | Some v \<Rightarrow> v) w"

definition writeStateToStorage :: "jsval \<Rightarrow> world \<Rightarrow> jsval \<times> world" where
  "writeStateToStorage state w =
     (let (next, w1) = normalizeState state w
      in (next, w1\<lparr>state_item := Some next\<rparr>))"

definition migrateLegacyIfNeeded :: "world \<Rightarrow> world" where
  "migrateLegacyIfNeeded w =
     (if state_item w \<noteq> None then w
      else case legacy_item w of
        Some (JArr (e # es)) \<Rightarrow>
          (let (state, w1) = getDefaultState w;
               state1 = (case get_prop state ''diary'' of
                           Some d \<Rightarrow> set_prop state ''diary'' (set_prop d ''entries'' (JArr (e # es)))
                         | None \<Rightarrow> state)
           in snd (writeStateToStorage state1 w1))
      | _ \<Rightarrow> w)"

definition ensureState :: "world \<Rightarrow> jsval \<times> world" where
  "ensureState w =
     (let w1 = migrateLegacyIfNeeded w;
          (state, w2) = readStateFromStorage w1
      in if state_item w2 = None then (state, snd (writeStateToStorage state w2))
         else (state, w2))"

definition validateBackupState :: "jsval \<Rightarrow> backup_error option" where
  "validateBackupState candidate =
     (if \<not> truthy candidate \<or> \<not> object_typed candidate then Some FormatoInvalido
      else if get_prop candidate ''version'' \<noteq> Some (JNum 1) then Some VersionNoSoportada
      else if \<not> truthy_opt (get_prop candidate ''diary'')
              \<or> \<not> object_typed_opt (get_prop candidate ''diary'') then Some FaltaDiary
      else if \<not> truthy_opt (get_prop candidate ''allergens'')
              \<or> \<not> object_typed_opt (get_prop candidate ''allergens'') then Some FaltaAllergens
      else if \<not> truthy_opt (get_prop candidate ''milestones'')
              \<or> \<not> object_typed_opt (get_prop candidate ''milestones'') then Some FaltaMilestones
      else if \<not> truthy_opt (get_prop candidate ''babyProfile'')
              \<or> \<not> object_typed_opt (get_prop candidate ''babyProfile'') then Some FaltaBabyProfile
      else None)"

definition getState :: "world \<Rightarrow> jsval \<times> world" where
  "getState w = ensureState w"

definition setState :: "jsval \<Rightarrow> world \<Rightarrow> jsval \<times> world" where
  "setState partial w =
     (let (current, w1) = ensureState w;
          next = mergeDeep current (if isPlainObject partial then partial else JObj [])
      in writeStateToStorage next w1)"

definition resetState :: "world \<Rightarrow> jsval \<times> world" where
  "resetState w = ensureState (w\<lparr>state_item := None, legacy_item := None\<rparr>)"

definition exportState :: "world \<Rightarrow> jsval \<times> world" where
  "exportState w = ensureState w"

text \<open>\<open>importState\<close> throws on a failed validation: the world it leaves is the one it found.\<close>

definition importState :: "jsval \<Rightarrow> world \<Rightarrow> (error + jsval) \<times> world" where
  "importState nextState w =
     (case validateBackupState nextState of
        Some e \<Rightarrow> (Inl (BackupError e), w)
      | None \<Rightarrow>
          (let (written, w1) = writeStateToStorage nextState w;
               (state, w2) = ensureState w1
           in (Inr state, w2)))"

text \<open>
  \<open>StorageApi.milestones.isComplete\<close>. Reading a property of \<open>null\<close> throws a TypeError;
  \<open>milestones\<close> is never \<open>undefined\<close> in a normalized state, that branch is kept for
  totality.
\<close>

definition milestone_fields :: "string list" where
  "milestone_fields = [''seated'', ''noExtrusion'', ''interestInFood'', ''handToMouth'']"

definition isComplete_of :: "jsval \<Rightarrow> bool" where
  "isComplete_of m =
     (truthy_opt (get_prop m ''seated'') \<and> truthy_opt (get_prop m ''noExtrusion'')
      \<and> truthy_opt (get_prop m ''interestInFood'') \<and> truthy_opt (get_prop m ''handToMouth''))"

definition milestones_isComplete :: "world \<Rightarrow> (error + bool) \<times> world" where
  "milestones_isComplete w =
     (let (state, w1) = ensureState w in
      case get_prop state ''milestones'' of
        None \<Rightarrow> (Inl TypeError, w1)
      | Some JNull \<Rightarrow> (Inl TypeError, w1)
      | Some m \<Rightarrow> (Inr (isComplete_of m), w1))"

subsection \<open>Normalization with the clock readings named\<close>

text \<open>
  \<open>norm_pure raw c u t\<close> is the state \<open>normalizeState raw\<close> returns when the clock
  reads \<open>c\<close>, \<open>u\<close> and \<open>t\<close> (lemma \<open>normalizeState_eq\<close> below); \<open>sect raw k\<close> is its
  section \<open>k\<close>, which no clock reading enters; a world is well formed when the persisted
  value repeats no key.
\<close>

definition default_fields :: "jsval \<Rightarrow> jsval \<Rightarrow> (string \<times> jsval) list" where
  "default_fields c u =
     [(''version'', JNum 1), (''createdAt'', c), (''updatedAt'', u),
      (''diary'', default_diary), (''allergens'', default_allergens),
      (''milestones'', default_milestones), (''babyProfile'', default_babyProfile)]"

definition valid_raw :: "jsval \<Rightarrow> bool" where
  "valid_raw raw = (object_typed raw \<and> get_prop raw ''version'' = Some (JNum 1))"

definition norm_pure :: "jsval \<Rightarrow> jsval \<Rightarrow> jsval \<Rightarrow> jsval \<Rightarrow> jsval" where
  "norm_pure raw c u t =
     (if valid_raw raw
      then set_prop (set_prop (mergeDeep (JObj (default_fields c u)) raw) ''version'' (JNum 1))
             ''updatedAt'' t
      else JObj (default_fields c u))"

definition wf_world :: "world \<Rightarrow> bool" where
  "wf_world w = (case state_item w of None \<Rightarrow> True | Some raw \<Rightarrow> distinct_keys raw)"

definition default_section :: "string \<Rightarrow> jsval option" where
  "default_section k = map_of (default_fields JNull JNull) k"

definition sect :: "jsval \<Rightarrow> string \<Rightarrow> jsval option" where
  "sect raw k =
     (if valid_raw raw
      then (case get_prop raw k of
              None \<Rightarrow> default_section k
            | Some v \<Rightarrow> Some (merge_value (default_section k) v))
      else default_section k)"

text \<open>
  A legacy history that migrates (a non-empty array), and the state the migration
  persists for it.
\<close>

definition migratable :: "world \<Rightarrow> bool" where
  "migratable w = (case legacy_item w of Some (JArr (e # es)) \<Rightarrow> True | _ \<Rightarrow> False)"

definition migrated_state :: "world \<Rightarrow> jsval list \<Rightarrow> jsval" where
  "migrated_state w es =
     JObj [(''version'', JNum 1), (''createdAt'', JStr (timeline w (ticks w))),
           (''updatedAt'', JStr (timeline w (ticks w + 4))),
           (''diary'', JObj [(''entries'', JArr es)]),
           (''allergens'', default_allergens), (''milestones'', default_milestones),
           (''babyProfile'', default_babyProfile)]"

text \<open>\<open>import(export())\<close>: the document that \<open>exportState\<close> returns, imported at once.\<close>

definition export_then_import :: "world \<Rightarrow> (error + jsval) \<times> world" where
  "export_then_import w = (let (doc, w1) = exportState w in importState doc w1)"

subsection \<open>Diary and allergen operations of StorageApi\<close>

text \<open>
  \<open>current.diary.entries\<close> guarded by \<open>Array.isArray\<close>; reading \<open>entries\<close> of a
  \<open>diary\<close> that is \<open>null\<close> throws.
\<close>

definition entries_of :: "jsval \<Rightarrow> error + jsval list" where
  "entries_of current =
     (case get_prop current ''diary'' of
        None \<Rightarrow> Inl TypeError
      | Some JNull \<Rightarrow> Inl TypeError
      | Some d \<Rightarrow> Inr (case get_prop d ''entries'' of Some (JArr es) \<Rightarrow> es | _ \<Rightarrow> []))"

text \<open>
  Strict equality \<open>===\<close>: primitives are compared by value, arrays and objects by
  reference, and two values read from different documents are never the same reference.
\<close>

fun strict_eq :: "jsval option \<Rightarrow> jsval option \<Rightarrow> bool" where
  "strict_eq (Some (JArr xs)) b = False"
| "strict_eq (Some (JObj fs)) b = False"
| "strict_eq a b = (a = b)"

fun findIndex :: "('a \<Rightarrow> bool) \<Rightarrow> 'a list \<Rightarrow> nat option" where
  "findIndex p [] = None"
| "findIndex p (x # xs) =
     (if p x then Some 0 else map_option Suc (findIndex p xs))"

definition same_id :: "jsval \<Rightarrow> jsval \<Rightarrow> bool" where
  "same_id entry e =
     (truthy e \<and> object_typed e \<and> strict_eq (get_prop e ''id'') (get_prop entry ''id''))"

definition diary_payload :: "jsval list \<Rightarrow> jsval" where
  "diary_payload entries = JObj [(''diary'', JObj [(''entries'', JArr entries)])]"

definition upsertEntry :: "jsval \<Rightarrow> world \<Rightarrow> (error + jsval) \<times> world" where
  "upsertEntry entry w =
     (let (current, w1) = ensureState w in
      case entries_of current of
        Inl err \<Rightarrow> (Inl err, w1)
      | Inr entries \<Rightarrow>
          if \<not> truthy entry \<or> \<not> object_typed entry \<or> \<not> truthy_opt (get_prop entry ''id'')
          then (let (s, w2) = setState (diary_payload entries) w1 in (Inr s, w2))
          else
            (let next = (case findIndex (same_id entry) entries of
                           Some idx \<Rightarrow> take idx entries @ [entry] @ drop (idx + 1) entries
                         | None \<Rightarrow> entries @ [entry]);
                 (s, w2) = setState (diary_payload next) w1
             in (Inr s, w2)))"






section \<open>app.js\<close>

subsection \<open>Numbers and dates\<close>

text \<open>
  What the program needs of its host: \<open>FOOD_INDEX\<close> is the catalog of data.js (an array
  literal of object literals, so the \<open>Array.isArray\<close> guard of \<open>getFoodIndex\<close> passes);
  \<open>today\<close> is the UTC date of \<open>new Date()\<close> as
  (getUTCFullYear, getUTCMonth, getUTCDate), the month counted from 0; \<open>date_of v\<close> is
  the UTC date of \<open>new Date(`${v}T00:00:00Z`)\<close>, \<open>None\<close> when its time is \<open>NaN\<close>;
  \<open>number_of v\<close> is \<open>Number(v)\<close> for a string, an array or an object.
\<close>

type_synonym utc_date = "int \<times> int \<times> int"

record env =
  FOOD_INDEX :: "(string \<times> jsval) list list"
  today :: utc_date
  date_of :: "jsval \<Rightarrow> utc_date option"
  number_of :: "jsval \<Rightarrow> jsnum"

fun Number_js :: "env \<Rightarrow> jsval option \<Rightarrow> jsnum" where
  "Number_js e None = NaN"
| "Number_js e (Some JNull) = Fin 0"
| "Number_js e (Some (JBool b)) = Fin (if b then 1 else 0)"
| "Number_js e (Some (JNum r)) = Fin r"
| "Number_js e (Some v) = number_of e v"

fun isFinite :: "jsnum \<Rightarrow> bool" where
  "isFinite (Fin r) = True"
| "isFinite x = False"

text \<open>The comparisons \<open><\<close> and \<open><=\<close> of numbers; every comparison with \<open>NaN\<close> is false.\<close>

fun js_lt :: "jsnum \<Rightarrow> jsnum \<Rightarrow> bool" where
  "js_lt NaN b = False"
| "js_lt a NaN = False"
| "js_lt (Fin a) (Fin b) = (a < b)"
| "js_lt (Fin a) PosInf = True"
| "js_lt (Fin a) NegInf = False"
| "js_lt PosInf b = False"
| "js_lt NegInf NegInf = False"
| "js_lt NegInf b = True"

fun js_le :: "jsnum \<Rightarrow> jsnum \<Rightarrow> bool" where
  "js_le NaN b = False"
| "js_le a NaN = False"
| "js_le a b = (a = b \<or> js_lt a b)"

definition js_gt :: "jsnum \<Rightarrow> jsnum \<Rightarrow> bool" where
  "js_gt a b = js_lt b a"

definition months_num :: "int \<Rightarrow> jsnum" where
  "months_num m = Fin (of_int m)"

definition parseDateInput :: "env \<Rightarrow> jsval option \<Rightarrow> utc_date option" where
  "parseDateInput e v =
     (if \<not> truthy_opt v then None
      else case v of None \<Rightarrow> None | Some x \<Rightarrow> date_of e x)"

text \<open>
  \<open>monthsBetweenUtc\<close> is called on what \<open>parseDateInput\<close> returned and on today's date,
  both of them dates, so its guard \<open>instanceof Date\<close> (result 0) is left out.
\<close>

fun monthsBetweenUtc :: "utc_date \<Rightarrow> utc_date \<Rightarrow> int" where
  "monthsBetweenUtc (y1, m1, d1) (y2, m2, d2) =
     (let months = (y2 - y1) * 12 + (m2 - m1);
          months1 = (if d2 < d1 then months - 1 else months)
      in max 0 months1)"

definition isPreterm :: "env \<Rightarrow> jsval \<Rightarrow> bool" where
  "isPreterm e profile =
     (let gestationWeeks = Number_js e (get_prop profile ''gestationWeeks'')
      in isFinite gestationWeeks \<and> js_gt gestationWeeks (Fin 0) \<and> js_lt gestationWeeks (Fin 37))"

definition getSafeAgeMonths :: "env \<Rightarrow> jsval option \<Rightarrow> int option" where
  "getSafeAgeMonths e p =
     (case p of
        None \<Rightarrow> None
      | Some profile \<Rightarrow>
          if \<not> truthy profile \<or> \<not> object_typed profile then None
          else case parseDateInput e (get_prop profile ''birthDate'') of
            None \<Rightarrow> None
          | Some birth \<Rightarrow>
              (let due = parseDateInput e (get_prop profile ''dueDate'');
                   baseDate = (case due of
                                 Some d \<Rightarrow> if isPreterm e profile then d else birth
                               | None \<Rightarrow> birth)
               in Some (monthsBetweenUtc baseDate (today e))))"

subsection \<open>Eligibility\<close>

definition getProfileSafeAgeMonths :: "env \<Rightarrow> world \<Rightarrow> int option \<times> world" where
  "getProfileSafeAgeMonths e w =
     (let (state, w1) = ensureState w
      in (getSafeAgeMonths e (get_prop state ''babyProfile''), w1))"

definition getFoodIndex :: "env \<Rightarrow> (string \<times> jsval) list list" where
  "getFoodIndex e = FOOD_INDEX e"

definition edad_minima :: "env \<Rightarrow> (string \<times> jsval) list \<Rightarrow> jsnum" where
  "edad_minima e f = Number_js e (map_of f ''edad_minima'')"


text \<open>
  The age checks that \<open>renderFoodList\<close> and \<open>renderRecipeList\<close> make inline, before
  their range, text and allergen conditions: a record passes unless
  \<open>Number(f.edad_minima) > safeMonths\<close>, respectively unless
  \<open>Number.isFinite(minAge) && minAge > safeMonths\<close>.
\<close>

definition food_list_age_ok :: "env \<Rightarrow> int \<Rightarrow> (string \<times> jsval) list \<Rightarrow> bool" where
  "food_list_age_ok e safeMonths f = (\<not> js_gt (edad_minima e f) (months_num safeMonths))"

definition recipe_list_age_ok :: "env \<Rightarrow> int \<Rightarrow> (string \<times> jsval) list \<Rightarrow> bool" where
  "recipe_list_age_ok e safeMonths r =
     (let minAge = edad_minima e r
      in \<not> (isFinite minAge \<and> js_gt minAge (months_num safeMonths)))"

subsection \<open>Saving a diary entry: the click handler of \<open>#day-save\<close> in \<open>renderDayModal\<close>\<close>

text \<open>
  \<open>String.prototype.trim\<close> on the ASCII white space (strings are byte strings here; the
  Unicode spaces that \<open>trim\<close> also removes are not told apart).
\<close>

definition is_space :: "char \<Rightarrow> bool" where
  "is_space c = (c \<in> set [CHR '' '', CHR 0x09, CHR 0x0A, CHR 0x0B, CHR 0x0C, CHR 0x0D])"

definition trim :: "string \<Rightarrow> string" where
  "trim s = rev (dropWhile is_space (rev (dropWhile is_space s)))"

text \<open>The values of the form's controls when the button is clicked.\<close>

record day_form =
  food_value :: string
  quantity_value :: string
  form_value :: string
  reaction_value :: string
  notes_value :: string

datatype save_outcome =
    MilestonesIncomplete "string list"
  | ProfileIncomplete
  | ValidationError
  | FoodIneligible
  | Saved jsval

definition or_default :: "string \<Rightarrow> string \<Rightarrow> string" where
  "or_default s d = (if s = [] then d else s)"

text \<open>
  \<open>openMilestonesBlockedModal\<close> lists the items \<open>!m?.field\<close>; they are named by their
  field here (the modal shows a Spanish label for each).
\<close>

definition unmet_milestones :: "jsval option \<Rightarrow> string list" where
  "unmet_milestones m =
     filter (\<lambda>k. \<not> truthy_opt (case m of Some v \<Rightarrow> get_prop v k | None \<Rightarrow> None))
       milestone_fields"

text \<open>
  \<open>ensureCalendarAllowedOrExplain\<close>. StorageApi is defined by storage.js, so the first
  guard (\<open>reason: "storage"\<close>) never fires and is left out.
\<close>

definition ensureCalendarAllowedOrExplain ::
  "env \<Rightarrow> world \<Rightarrow> (error + (save_outcome + int)) \<times> world" where
  "ensureCalendarAllowedOrExplain e w =
     (case milestones_isComplete w of
        (Inl err, w1) \<Rightarrow> (Inl err, w1)
      | (Inr False, w1) \<Rightarrow>
          (let (state, w2) = ensureState w1
           in (Inr (Inl (MilestonesIncomplete (unmet_milestones (get_prop state ''milestones'')))),
               w2))
      | (Inr True, w1) \<Rightarrow>
          (let (safeMonths, w2) = getProfileSafeAgeMonths e w1 in
           case safeMonths of
             None \<Rightarrow> (Inr (Inl ProfileIncomplete), w2)
           | Some m \<Rightarrow> (Inr (Inr m), w2)))"

text \<open>
  The hidden input \<open>#day-entry-id\<close> is rendered with \<open>editing?.id || ""\<close>. The entry
  being edited was found by \<open>e.id === editingId\<close> with \<open>editingId\<close> a string, so its id
  is a string.
\<close>

definition idEl_value :: "jsval option \<Rightarrow> string" where
  "idEl_value editing =
     (case editing of
        Some ed \<Rightarrow> (case get_prop ed ''id'' of Some (JStr s) \<Rightarrow> s | _ \<Rightarrow> [])
      | None \<Rightarrow> [])"

text \<open>
  The entry the handler builds. \<open>new_id\<close> is what \<open>makeId()\<close> returns when it is called;
  \<open>editing?.createdAt || new Date().toISOString()\<close> reads the clock only when the edited
  entry has no truthy \<open>createdAt\<close>.
\<close>

definition build_entry ::
  "string \<Rightarrow> jsval option \<Rightarrow> day_form \<Rightarrow> string \<Rightarrow> string \<Rightarrow> world \<Rightarrow> jsval \<times> world" where
  "build_entry dateStr editing form foodId new_id w =
     (let entryId = (let i = trim (idEl_value editing) in if i = [] then new_id else i);
          (created, w1) =
             (case editing of
                Some ed \<Rightarrow>
                  (case get_prop ed ''createdAt'' of
                     Some c \<Rightarrow> if truthy c then (c, w) else nowIso w
                   | None \<Rightarrow> nowIso w)
              | None \<Rightarrow> nowIso w);
          (updated, w2) = nowIso w1
      in (JObj [(''id'', JStr entryId), (''date'', JStr dateStr), (''foodId'', JStr foodId),
                (''quantity'', JStr (or_default (quantity_value form) ''exploration'')),
                (''form'', JStr (or_default (form_value form) ''soft_whole'')),
                (''reaction'', JStr (or_default (reaction_value form) ''neutral'')),
                (''notes'', JStr (trim (notes_value form))),
                (''createdAt'', created), (''updatedAt'', updated)], w2))"

definition find_food :: "env \<Rightarrow> string \<Rightarrow> (string \<times> jsval) list option" where
  "find_food e foodId = find (\<lambda>f. map_of f ''id'' = Some (JStr foodId)) (getFoodIndex e)"

text \<open>
  The handler. After a save it renders the calendar and the modal again, which only
  reads the store; that is left out.
\<close>

definition day_save ::
  "env \<Rightarrow> string \<Rightarrow> jsval option \<Rightarrow> day_form \<Rightarrow> string \<Rightarrow> world
     \<Rightarrow> (error + save_outcome) \<times> world" where
  "day_save e dateStr editing form new_id w =
     (case ensureCalendarAllowedOrExplain e w of
        (Inl err, w1) \<Rightarrow> (Inl err, w1)
      | (Inr (Inl blocked), w1) \<Rightarrow> (Inr blocked, w1)
      | (Inr (Inr safeMonths), w1) \<Rightarrow>
          (let foodId = trim (food_value form) in
           if foodId = [] then (Inr ValidationError, w1)
           else
             (let food = find_food e foodId in
              if (case food of
                    Some f \<Rightarrow> isFinite (edad_minima e f)
                              \<and> js_gt (edad_minima e f) (months_num safeMonths)
                  | None \<Rightarrow> False)
              then (Inr FoodIneligible, w1)
              else
                (let (entry, w2) = build_entry dateStr editing form foodId new_id w1;
                     (r, w3) = upsertEntry entry w2
                 in case r of
                      Inl err \<Rightarrow> (Inl err, w3)
                    | Inr s \<Rightarrow> (Inr (Saved entry), w3)))))"

section \<open>Concrete inputs\<close>

text \<open>
  A host and some worlds on which the operations are run below. The host converts no
  string to a number (no input below holds a numeric string) and knows two dates.
\<close>

definition demo_env :: env where
  "demo_env = \<lparr>
     FOOD_INDEX = [[(''id'', JStr ''aguacate''), (''edad_minima'', JNum 6)],
                   [(''id'', JStr ''huevo''), (''edad_minima'', JNum 8)],
                   [(''id'', JStr ''sin_edad'')]],
     today = (2024, 7, 10),
     date_of = (\<lambda>v. if v = JStr ''2024-01-10'' then Some (2024, 0, 10)
                    else if v = JStr ''2024-03-01'' then Some (2024, 2, 1) else None),
     number_of = (\<lambda>v. NaN) \<rparr>"

definition demo_world :: "jsval list \<Rightarrow> world" where
  "demo_world entries = \<lparr>
     state_item = Some (JObj [(''version'', JNum 1),
        (''createdAt'', JStr ''c''), (''updatedAt'', JStr ''u''),
        (''diary'', JObj [(''entries'', JArr entries)]),
        (''allergens'', JObj [(''statuses'', JObj [(''huevo'', JStr ''mild'')])]),
        (''milestones'', JObj [(''seated'', JBool True), (''noExtrusion'', JBool True),
            (''interestInFood'', JBool True), (''handToMouth'', JBool True)]),
        (''babyProfile'', JObj [(''birthDate'', JStr ''2024-01-10''),
            (''gestationWeeks'', JNull), (''dueDate'', JNull)])]),
     legacy_item = None, ticks = 0, timeline = (\<lambda>n. if n < 5 then ''t0'' else ''t1'') \<rparr>"

definition stale_world :: world where
  "stale_world = \<lparr> state_item = Some (JObj [(''version'', JNum 2),
        (''diary'', JObj [(''entries'', JArr [JStr ''old''])])]),
     legacy_item = None, ticks = 0, timeline = (\<lambda>n. ''t0'') \<rparr>"

definition minimal_backup :: jsval where
  "minimal_backup = JObj [(''version'', JNum 1), (''diary'', JObj []), (''allergens'', JObj []),
     (''milestones'', JObj []), (''babyProfile'', JObj [])]"

definition scenario3_world :: world where
  "scenario3_world = \<lparr>
     state_item = Some (JObj [(''version'', JNum 1),
        (''milestones'', JObj [(''seated'', JBool True), (''noExtrusion'', JBool True),
            (''interestInFood'', JBool False), (''handToMouth'', JBool True)])]),
     legacy_item = None, ticks = 0, timeline = (\<lambda>n. ''t0'') \<rparr>"

definition preterm_profile :: jsval where
  "preterm_profile = JObj [(''birthDate'', JStr ''2024-01-10''), (''gestationWeeks'', JNum 32),
     (''dueDate'', JStr ''2024-03-01'')]"

definition preterm_no_birth :: jsval where
  "preterm_no_birth = JObj [(''birthDate'', JNull), (''gestationWeeks'', JNum 32),
     (''dueDate'', JStr ''2024-03-01'')]"

definition term_profile :: jsval where
  "term_profile = JObj [(''birthDate'', JStr ''2024-01-10''), (''gestationWeeks'', JNull),
     (''dueDate'', JNull)]"





section \<open>Properties\<close>

subsection \<open>Reading and writing properties\<close>

lemma get_prop_Some_obj: "get_prop v k = Some x \<Longrightarrow> \<exists>fs. v = JObj fs"
  by (cases v) auto

lemma get_prop_set_prop_other:
  "k' \<noteq> k \<Longrightarrow> get_prop (set_prop v k x) k' = get_prop v k'"
  by (cases v) (auto simp: update_conv')

lemma getDefaultState_version:
  "get_prop (fst (getDefaultState w)) ''version'' = Some (JNum 1)"
  by (simp add: getDefaultState_def nowIso_def)

lemma normalizeState_invalid:
  "\<not> object_typed raw \<or> get_prop raw ''version'' \<noteq> Some (JNum 1)
   \<Longrightarrow> normalizeState raw w = getDefaultState w"
  by (auto simp: normalizeState_def split: prod.splits)

lemma normalizeState_version:
  "get_prop (fst (normalizeState raw w)) ''version'' = Some (JNum 1)"
proof (cases "\<not> object_typed raw \<or> get_prop raw ''version'' \<noteq> Some (JNum 1)")
  case True
  then show ?thesis by (simp add: normalizeState_invalid getDefaultState_version)
next
  case False
  then obtain s where s: "raw = JObj s" using get_prop_Some_obj by blast
  obtain d w1 where d: "getDefaultState w = (d, w1)" by (cases "getDefaultState w")
  then obtain t where t: "d = JObj t" by (auto simp: getDefaultState_def nowIso_def)
  from False d s t show ?thesis
    by (simp add: normalizeState_def nowIso_def get_prop_set_prop_other update_conv' split: prod.splits)
qed

lemma ensureState_fst:
  "fst (ensureState w) = fst (readStateFromStorage (migrateLegacyIfNeeded w))"
  by (simp add: ensureState_def Let_def split: prod.splits)

lemma ensureState_version:
  "get_prop (fst (ensureState w)) ''version'' = Some (JNum 1)"
  by (simp add: ensureState_fst readStateFromStorage_def normalizeState_version)

lemma writeStateToStorage_fst:
  "fst (writeStateToStorage s w) = fst (normalizeState s w)"
  by (simp add: writeStateToStorage_def split: prod.splits)

lemma setState_version:
  "get_prop (fst (setState p w)) ''version'' = Some (JNum 1)"
  by (simp add: setState_def writeStateToStorage_fst normalizeState_version split: prod.splits)

lemma importState_version:
  "fst (importState d w) = Inr s \<Longrightarrow> get_prop s ''version'' = Some (JNum 1)"
  by (auto simp: importState_def split: option.splits prod.splits)
     (metis ensureState_version fst_conv)

lemma getState_invalid:
  assumes "state_item w = Some raw"
    and "\<not> object_typed raw \<or> get_prop raw ''version'' \<noteq> Some (JNum 1)"
  shows "getState w = getDefaultState w"
  using assms
  by (simp add: getState_def ensureState_def migrateLegacyIfNeeded_def readStateFromStorage_def
      normalizeState_invalid getDefaultState_def nowIso_def)

lemmas store_defs = getState_def setState_def resetState_def exportState_def importState_def
  ensureState_def migrateLegacyIfNeeded_def readStateFromStorage_def writeStateToStorage_def
  normalizeState_def getDefaultState_def nowIso_def validateBackupState_def
  default_diary_def default_allergens_def default_milestones_def default_babyProfile_def

lemma importState_accepts:
  "validateBackupState d = None \<Longrightarrow> \<exists>s. fst (importState d w) = Inr s"
  by (simp add: importState_def case_prod_beta)

subsection \<open>The deep merge\<close>

lemma merge_entries_Cons:
  "merge_entries out ((k, v) # rest) =
     merge_entries (AList.update k (merge_value (map_of out k) v) out) rest"
  by (simp add: merge_value_def)

lemma update_keys_filter:
  "map fst (AList.update k v al) = map fst al @ (if k \<in> set (map fst al) then [] else [k])"
  by (induction al) auto

lemma merge_entries_keys:
  "distinct (map fst s) \<Longrightarrow>
   map fst (merge_entries out s) = map fst out @ filter (\<lambda>k. k \<notin> set (map fst out)) (map fst s)"
proof (induction s arbitrary: out)
  case Nil
  then show ?case by simp
next
  case (Cons p s)
  obtain k v where p: "p = (k, v)" by (cases p)
  let ?out = "AList.update k (merge_value (map_of out k) v) out"
  from Cons.prems p have d: "distinct (map fst s)" and nk: "k \<notin> set (map fst s)" by auto
  have "map fst (merge_entries out (p # s)) = map fst (merge_entries ?out s)"
    by (simp only: p merge_entries_Cons)
  also have "\<dots> = map fst ?out @ filter (\<lambda>k. k \<notin> set (map fst ?out)) (map fst s)"
    by (rule Cons.IH[OF d])
  also have "filter (\<lambda>x. x \<notin> set (map fst ?out)) (map fst s)
             = filter (\<lambda>x. x \<notin> set (map fst out)) (map fst s)"
    using nk by (intro filter_cong) (auto simp: update_keys_filter)
  finally show ?case
    by (simp add: p update_keys_filter)
qed

lemma merge_entries_lookup:
  "distinct (map fst s) \<Longrightarrow>
   map_of (merge_entries out s) k =
     (case map_of s k of
        None \<Rightarrow> map_of out k
      | Some v \<Rightarrow> Some (merge_value (map_of out k) v))"
proof (induction s arbitrary: out)
  case Nil
  then show ?case by simp
next
  case (Cons p s)
  obtain k' v' where p: "p = (k', v')" by (cases p)
  let ?out = "AList.update k' (merge_value (map_of out k') v') out"
  from Cons.prems p have d: "distinct (map fst s)" and nk: "k' \<notin> set (map fst s)" by auto
  from nk have none: "map_of s k' = None" by (simp add: map_of_eq_None_iff)
  have "map_of (merge_entries out (p # s)) k = map_of (merge_entries ?out s) k"
    by (simp only: p merge_entries_Cons)
  also have "\<dots> = (case map_of s k of None \<Rightarrow> map_of ?out k
                     | Some v \<Rightarrow> Some (merge_value (map_of ?out k) v))"
    by (rule Cons.IH[OF d])
  finally show ?case
    using none by (auto simp: p update_conv' split: option.splits)
qed

lemma merge_entries_distinct:
  "distinct (map fst out) \<Longrightarrow> distinct (map fst s) \<Longrightarrow> distinct (map fst (merge_entries out s))"
  by (auto simp: merge_entries_keys)

lemma alist_eqI:
  assumes "map fst xs = map fst ys" and "distinct (map fst xs)"
    and "\<And>k. k \<in> set (map fst xs) \<Longrightarrow> map_of xs k = map_of ys k"
  shows "xs = ys"
  using assms
proof (induction xs arbitrary: ys)
  case Nil
  then show ?case by simp
next
  case (Cons x xs)
  then obtain y ys' where ys: "ys = y # ys'" by (cases ys) auto
  with Cons.prems have f: "fst x = fst y" and m: "map fst xs = map fst ys'"
    and d: "distinct (map fst xs)" and nx: "fst x \<notin> set (map fst xs)" by auto
  from Cons.prems(3)[of "fst x"] ys f have "snd x = snd y" by (cases x; cases y) auto
  with f have xy: "x = y" by (simp add: prod_eq_iff)
  have "xs = ys'"
  proof (rule Cons.IH[OF m d])
    fix k assume k: "k \<in> set (map fst xs)"
    with nx have ne: "k \<noteq> fst x" by blast
    from k have "k \<in> set (map fst (x # xs))" by simp
    from Cons.prems(3)[OF this] ne ys xy show "map_of xs k = map_of ys' k"
      by (cases x) (simp split: if_splits)
  qed
  with xy ys show ?case by simp
qed

lemma distinct_keys_lookup:
  "distinct_keys (JObj fs) \<Longrightarrow> map_of fs k = Some v \<Longrightarrow> distinct_keys v"
  by (auto simp: list_all_iff dest!: map_of_SomeD)

lemma mergeDeep_self: "distinct_keys v \<Longrightarrow> mergeDeep v v = v"
proof (induction v)
  case (JObj fs)
  have d: "distinct (map fst fs)" using JObj.prems by simp
  have "merge_entries fs fs = fs"
  proof (rule alist_eqI)
    show "map fst (merge_entries fs fs) = map fst fs"
      by (simp add: merge_entries_keys[OF d])
    show "distinct (map fst (merge_entries fs fs))"
      by (rule merge_entries_distinct[OF d d])
    fix k assume "k \<in> set (map fst (merge_entries fs fs))"
    then have "k \<in> set (map fst fs)" by (simp add: merge_entries_keys[OF d])
    then obtain v where v: "map_of fs k = Some v"
      by (metis map_of_eq_None_iff not_Some_eq set_map)
    then have "(k, v) \<in> set fs" by (rule map_of_SomeD)
    moreover have "distinct_keys v" using JObj.prems v by (rule distinct_keys_lookup)
    ultimately have "mergeDeep v v = v"
      using JObj.IH[of "(k, v)" v] by auto
    then have "merge_value (Some v) v = v"
      by (cases v) (auto simp: merge_value_def)
    then show "map_of (merge_entries fs fs) k = map_of fs k"
      by (simp add: merge_entries_lookup[OF d] v)
  qed
  then show ?case by simp
qed simp_all

lemma mergeDeep_plain:
  "isPlainObject t \<Longrightarrow> isPlainObject s \<Longrightarrow> isPlainObject (mergeDeep t s)"
  by (cases t; cases s) auto

lemma mergeDeep_idem:
  "distinct_keys d \<Longrightarrow> distinct_keys r \<Longrightarrow> mergeDeep d (mergeDeep d r) = mergeDeep d r"
proof (induction r arbitrary: d)
  case (JObj s)
  show ?case
  proof (cases d)
    case (JObj t)
    have ds: "distinct (map fst s)" using JObj.prems(2) by simp
    have dt: "distinct (map fst t)" using JObj.prems(1) JObj by simp
    let ?M = "merge_entries t s"
    have dM: "distinct (map fst ?M)" by (rule merge_entries_distinct[OF dt ds])
    have "merge_entries t ?M = ?M"
    proof (rule alist_eqI)
      show "map fst (merge_entries t ?M) = map fst ?M"
        by (simp add: merge_entries_keys[OF dM] merge_entries_keys[OF ds])
      show "distinct (map fst (merge_entries t ?M))"
        by (rule merge_entries_distinct[OF dt dM])
      fix k
      show "map_of (merge_entries t ?M) k = map_of ?M k"
      proof (cases "map_of s k")
        case None
        show ?thesis
        proof (cases "map_of t k")
          case None
          with \<open>map_of s k = None\<close> show ?thesis
            by (simp add: merge_entries_lookup[OF dM] merge_entries_lookup[OF ds])
        next
          case (Some tv)
          have "distinct_keys tv" using JObj.prems(1) JObj Some
            by (auto intro: distinct_keys_lookup)
          then have "mergeDeep tv tv = tv" by (rule mergeDeep_self)
          then have "merge_value (Some tv) tv = tv"
            by (cases tv) (auto simp: merge_value_def)
          with Some \<open>map_of s k = None\<close> show ?thesis
            by (simp add: merge_entries_lookup[OF dM] merge_entries_lookup[OF ds])
        qed
      next
        case (Some v)
        have kv: "(k, v) \<in> set s" using Some by (rule map_of_SomeD)
        have dv: "distinct_keys v" using JObj.prems(2) Some by (rule distinct_keys_lookup)
        have "merge_value (map_of t k) (merge_value (map_of t k) v) = merge_value (map_of t k) v"
        proof (cases "isPlainObject v \<and> isPlainObject_opt (map_of t k)")
          case True
          then obtain tv where tv: "map_of t k = Some tv" and ptv: "isPlainObject tv"
            by (cases "map_of t k") auto
          have "distinct_keys tv" using JObj.prems(1) JObj tv
            by (auto intro: distinct_keys_lookup)
          then have "mergeDeep tv (mergeDeep tv v) = mergeDeep tv v"
            using JObj.IH[of "(k, v)" v tv] kv dv by auto
          moreover have "isPlainObject (mergeDeep tv v)"
            using True ptv by (simp add: mergeDeep_plain)
          ultimately show ?thesis using True tv ptv
            by (simp add: merge_value_def)
        next
          case False
          then show ?thesis by (auto simp: merge_value_def)
        qed
        with Some show ?thesis
          by (simp add: merge_entries_lookup[OF dM] merge_entries_lookup[OF ds])
      qed
    qed
    with JObj show ?thesis by simp
  qed simp_all
qed simp_all

subsection \<open>The version tag\<close>

text \<open>
  Claim C10. Every state that \<open>getState\<close>, \<open>setState\<close>, \<open>importState\<close> (when it
  returns) or \<open>resetState\<close> returns carries the version tag 1, the number. A raw value
  that is not an object, or whose version is not the number 1, normalizes to the default
  state, and a world that persists such a value reads as the default state: the state
  returned is the default one with the timestamps of this reading (the persisted entry
  itself stays as it is until the next write).
\<close>

theorem store_version_one:
  "get_prop (fst (getState w)) ''version'' = Some (JNum 1)
   \<and> get_prop (fst (setState partial w)) ''version'' = Some (JNum 1)
   \<and> get_prop (fst (resetState w)) ''version'' = Some (JNum 1)
   \<and> (fst (importState doc w) = Inr s \<longrightarrow> get_prop s ''version'' = Some (JNum 1))
   \<and> (\<not> object_typed raw \<or> get_prop raw ''version'' \<noteq> Some (JNum 1)
        \<longrightarrow> normalizeState raw w = getDefaultState w)
   \<and> (state_item w = Some raw
        \<and> (\<not> object_typed raw \<or> get_prop raw ''version'' \<noteq> Some (JNum 1))
        \<longrightarrow> getState w = getDefaultState w)"
  using ensureState_version[of w] setState_version[of partial w] importState_version[of doc w s]
    normalizeState_invalid[of raw w] getState_invalid[of w raw]
    ensureState_version[of "w\<lparr>state_item := None, legacy_item := None\<rparr>"]
  by (simp add: getState_def resetState_def)

theorem store_version_one_witness:
  "get_prop (fst (getState stale_world)) ''version'' = Some (JNum 1)
   \<and> get_prop (fst (setState (JObj []) stale_world)) ''version'' = Some (JNum 1)
   \<and> get_prop (fst (resetState stale_world)) ''version'' = Some (JNum 1)
   \<and> (\<exists>s. fst (importState minimal_backup stale_world) = Inr s
          \<and> get_prop s ''version'' = Some (JNum 1))
   \<and> state_item stale_world = Some (JObj [(''version'', JNum 2),
        (''diary'', JObj [(''entries'', JArr [JStr ''old''])])])
   \<and> getState stale_world = getDefaultState stale_world"
proof -
  obtain s where s: "fst (importState minimal_backup stale_world) = Inr s"
    using importState_accepts[of minimal_backup stale_world]
    by (auto simp: validateBackupState_def minimal_backup_def)
  have r: "state_item stale_world = Some (JObj [(''version'', JNum 2),
        (''diary'', JObj [(''entries'', JArr [JStr ''old''])])])"
    by (simp add: stale_world_def)
  show ?thesis
    using store_version_one[of stale_world "JObj []" minimal_backup s
        "JObj [(''version'', JNum 2), (''diary'', JObj [(''entries'', JArr [JStr ''old''])])]"] s r
    by (simp add: getDefaultState_version)
qed

subsection \<open>The milestone gate\<close>

lemma truthy_opt_bool:
  "v \<in> {None, Some (JBool False), Some (JBool True)} \<Longrightarrow> truthy_opt v = (v = Some (JBool True))"
  by auto

lemma isComplete_of_truthy:
  "isComplete_of m = (\<forall>k \<in> set milestone_fields. truthy_opt (get_prop m k))"
  by (simp add: isComplete_of_def milestone_fields_def)

text \<open>
  Claim C2. For a checklist \<open>m\<close> each of whose four fields is a boolean or missing,
  the test of \<open>isComplete\<close> is true exactly when all four fields are \<open>true\<close>: one field
  that is \<open>false\<close> or missing makes it false; and \<open>StorageApi.milestones.isComplete\<close>
  returns that test of the checklist the store holds. (On any value the test is the
  conjunction of the fields' truthiness, \<open>isComplete_of_truthy\<close>.)
\<close>

theorem milestones_isComplete_iff:
  assumes "\<forall>k \<in> set milestone_fields.
           get_prop m k \<in> {None, Some (JBool False), Some (JBool True)}"
  shows "isComplete_of m = (\<forall>k \<in> set milestone_fields. get_prop m k = Some (JBool True))
       \<and> (get_prop (fst (ensureState w)) ''milestones'' = Some m \<and> m \<noteq> JNull \<longrightarrow>
            milestones_isComplete w =
              (Inr (\<forall>k \<in> set milestone_fields. get_prop m k = Some (JBool True)),
               snd (ensureState w)))"
proof -
  have i: "isComplete_of m = (\<forall>k \<in> set milestone_fields. get_prop m k = Some (JBool True))"
    using assms by (simp add: isComplete_of_def milestone_fields_def truthy_opt_bool)
  have "get_prop (fst (ensureState w)) ''milestones'' = Some m \<and> m \<noteq> JNull \<longrightarrow>
          milestones_isComplete w = (Inr (isComplete_of m), snd (ensureState w))"
    by (cases m) (simp_all add: milestones_isComplete_def case_prod_beta)
  with i show ?thesis by simp
qed

theorem milestones_isComplete_iff_witness:
  "\<not> isComplete_of (JObj [(''seated'', JBool True), (''noExtrusion'', JBool True),
        (''handToMouth'', JBool True)])
   \<and> fst (milestones_isComplete scenario3_world) = Inr False
   \<and> fst (milestones_isComplete (demo_world [])) = Inr True"
proof -
  have a: "get_prop (fst (ensureState scenario3_world)) ''milestones'' =
      Some (JObj [(''seated'', JBool True), (''noExtrusion'', JBool True),
            (''interestInFood'', JBool False), (''handToMouth'', JBool True)])"
    by (simp add: scenario3_world_def store_defs)
  have b: "get_prop (fst (ensureState (demo_world []))) ''milestones'' =
      Some (JObj [(''seated'', JBool True), (''noExtrusion'', JBool True),
            (''interestInFood'', JBool True), (''handToMouth'', JBool True)])"
    by (simp add: demo_world_def store_defs)
  have c: "\<not> isComplete_of (JObj [(''seated'', JBool True), (''noExtrusion'', JBool True),
        (''handToMouth'', JBool True)])"
    using milestones_isComplete_iff[of "JObj [(''seated'', JBool True), (''noExtrusion'', JBool True),
        (''handToMouth'', JBool True)]"]
    by (simp add: milestone_fields_def)
  have d: "fst (milestones_isComplete scenario3_world) = Inr False"
    using milestones_isComplete_iff[of "JObj [(''seated'', JBool True), (''noExtrusion'', JBool True),
            (''interestInFood'', JBool False), (''handToMouth'', JBool True)]" scenario3_world] a
    by (simp add: milestone_fields_def)
  have e: "fst (milestones_isComplete (demo_world [])) = Inr True"
    using milestones_isComplete_iff[of "JObj [(''seated'', JBool True), (''noExtrusion'', JBool True),
            (''interestInFood'', JBool True), (''handToMouth'', JBool True)]" "demo_world []"] b
    by (simp add: milestone_fields_def)
  from c d e show ?thesis by simp
qed

subsection \<open>Backup validation\<close>

lemma object_typed_truthy: "object_typed v \<Longrightarrow> truthy v"
  by (cases v) auto

lemma object_typed_opt_truthy: "object_typed_opt v \<Longrightarrow> truthy_opt v"
  by (cases v) (auto simp: object_typed_truthy)

lemma validateBackupState_None_iff:
  "validateBackupState doc = None \<longleftrightarrow>
     (object_typed doc \<and> get_prop doc ''version'' = Some (JNum 1)
      \<and> object_typed_opt (get_prop doc ''diary'') \<and> object_typed_opt (get_prop doc ''allergens'')
      \<and> object_typed_opt (get_prop doc ''milestones'') \<and> object_typed_opt (get_prop doc ''babyProfile''))"
  using object_typed_truthy[of doc] object_typed_opt_truthy[of "get_prop doc ''diary''"]
    object_typed_opt_truthy[of "get_prop doc ''allergens''"]
    object_typed_opt_truthy[of "get_prop doc ''milestones''"]
    object_typed_opt_truthy[of "get_prop doc ''babyProfile''"]
  unfolding validateBackupState_def by (simp split: if_splits) blast

lemma importState_accepts_iff:
  "(\<exists>s w'. importState doc w = (Inr s, w')) \<longleftrightarrow>
     (object_typed doc \<and> get_prop doc ''version'' = Some (JNum 1)
      \<and> object_typed_opt (get_prop doc ''diary'') \<and> object_typed_opt (get_prop doc ''allergens'')
      \<and> object_typed_opt (get_prop doc ''milestones'') \<and> object_typed_opt (get_prop doc ''babyProfile''))"
  by (auto simp: importState_def case_prod_beta simp flip: validateBackupState_None_iff split: option.splits)



lemma isPreterm_iff:
  "isPreterm e profile \<longleftrightarrow>
     (\<exists>g. Number_js e (get_prop profile ''gestationWeeks'') = Fin g \<and> 0 < g \<and> g < 37)"
  by (cases "Number_js e (get_prop profile ''gestationWeeks'')")
     (auto simp: isPreterm_def js_gt_def)

lemma parseDateInput_Some_obj:
  "parseDateInput e (get_prop profile k) = Some d \<Longrightarrow> truthy profile \<and> object_typed profile"
  by (cases profile) (auto simp: parseDateInput_def)

subsection \<open>Safe age\<close>

text \<open>
  A preterm profile with a parseable due date and no birth date: the age is unknown,
  although the months from the due date are 5. The birth date is looked at first.
\<close>

theorem corrected_age_counterexample:
  "Number_js demo_env (get_prop preterm_no_birth ''gestationWeeks'') = Fin 32
   \<and> parseDateInput demo_env (get_prop preterm_no_birth ''dueDate'') = Some (2024, 2, 1)
   \<and> monthsBetweenUtc (2024, 2, 1) (today demo_env) = 5
   \<and> getSafeAgeMonths demo_env (Some preterm_no_birth) = None"
  by (simp add: preterm_no_birth_def demo_env_def parseDateInput_def getSafeAgeMonths_def)

text \<open>
  Claim C3, amended. For a profile whose birth date parses, whose gestation weeks convert
  to a finite number strictly between 0 and 37 and whose due date parses, the safe age is
  the whole-month difference from the due date to today, floored at zero; the birth date
  does not occur in it.
\<close>

theorem corrected_age_replaces:
  assumes "parseDateInput e (get_prop profile ''birthDate'') = Some birth"
    and "Number_js e (get_prop profile ''gestationWeeks'') = Fin g" and "0 < g" and "g < 37"
    and "parseDateInput e (get_prop profile ''dueDate'') = Some (y1, m1, d1)"
    and "today e = (y2, m2, d2)"
  shows "getSafeAgeMonths e (Some profile) =
           Some (max 0 ((y2 - y1) * 12 + (m2 - m1) - (if d2 < d1 then 1 else 0)))"
proof -
  have p: "isPreterm e profile" using assms(2-4) by (auto simp: isPreterm_iff)
  have o: "truthy profile \<and> object_typed profile"
    using assms(1) by (rule parseDateInput_Some_obj)
  show ?thesis using assms(1,5,6) p o
    by (simp add: getSafeAgeMonths_def Let_def)
qed

theorem corrected_age_replaces_witness:
  "getSafeAgeMonths demo_env (Some preterm_profile) = Some 5
   \<and> getSafeAgeMonths (demo_env\<lparr>today := (2024, 0, 20)\<rparr>) (Some preterm_profile) = Some 0"
proof -
  have a: "parseDateInput demo_env (get_prop preterm_profile ''birthDate'') = Some (2024, 0, 10)"
    by (simp add: preterm_profile_def demo_env_def parseDateInput_def)
  have b: "Number_js demo_env (get_prop preterm_profile ''gestationWeeks'') = Fin 32"
    by (simp add: preterm_profile_def)
  have c: "parseDateInput demo_env (get_prop preterm_profile ''dueDate'') = Some (2024, 2, 1)"
    by (simp add: preterm_profile_def demo_env_def parseDateInput_def)
  have d: "today demo_env = (2024, 7, 10)" by (simp add: demo_env_def)
  have a': "parseDateInput (demo_env\<lparr>today := (2024, 0, 20)\<rparr>) (get_prop preterm_profile ''birthDate'') = Some (2024, 0, 10)"
    by (simp add: preterm_profile_def demo_env_def parseDateInput_def)
  have b': "Number_js (demo_env\<lparr>today := (2024, 0, 20)\<rparr>) (get_prop preterm_profile ''gestationWeeks'') = Fin 32"
    by (simp add: preterm_profile_def)
  have c': "parseDateInput (demo_env\<lparr>today := (2024, 0, 20)\<rparr>) (get_prop preterm_profile ''dueDate'') = Some (2024, 2, 1)"
    by (simp add: preterm_profile_def demo_env_def parseDateInput_def)
  have d': "today (demo_env\<lparr>today := (2024, 0, 20)\<rparr>) = (2024, 0, 20)" by simp
  show ?thesis
    using corrected_age_replaces[OF a b _ _ c d] corrected_age_replaces[OF a' b' _ _ c' d']
    by simp
qed

text \<open>
  Claim C4. Without a profile, or with a birth date that is absent or does not parse, the
  safe age is unknown. With a birth date that parses and no applicable correction (not
  preterm, or no parseable due date) it is the calendar-month difference between the birth
  date and today, one less when today's day of the month is before the birth's, floored
  at zero.
\<close>

theorem chronological_age:
  "getSafeAgeMonths e None = None
   \<and> (parseDateInput e (get_prop profile ''birthDate'') = None
        \<longrightarrow> getSafeAgeMonths e (Some profile) = None)
   \<and> (parseDateInput e (get_prop profile ''birthDate'') = Some (y1, m1, d1)
        \<and> \<not> (isPreterm e profile \<and> parseDateInput e (get_prop profile ''dueDate'') \<noteq> None)
        \<and> today e = (y2, m2, d2)
        \<longrightarrow> getSafeAgeMonths e (Some profile) =
              Some (max 0 ((y2 - y1) * 12 + (m2 - m1) - (if d2 < d1 then 1 else 0))))"
proof -
  have "parseDateInput e (get_prop profile ''birthDate'') = Some (y1, m1, d1)
        \<Longrightarrow> truthy profile \<and> object_typed profile"
    by (rule parseDateInput_Some_obj)
  then show ?thesis
    by (auto simp: getSafeAgeMonths_def Let_def split: option.splits)
qed

theorem chronological_age_witness:
  "getSafeAgeMonths demo_env (Some preterm_no_birth) = None
   \<and> getSafeAgeMonths demo_env (Some term_profile) = Some 7
   \<and> getSafeAgeMonths (demo_env\<lparr>today := (2024, 7, 9)\<rparr>) (Some term_profile) = Some 6"
proof -
  have a: "parseDateInput demo_env (get_prop preterm_no_birth ''birthDate'') = None"
    by (simp add: preterm_no_birth_def parseDateInput_def)
  have b: "parseDateInput demo_env (get_prop term_profile ''birthDate'') = Some (2024, 0, 10)
     \<and> \<not> (isPreterm demo_env term_profile
           \<and> parseDateInput demo_env (get_prop term_profile ''dueDate'') \<noteq> None)
     \<and> today demo_env = (2024, 7, 10)"
    by (simp add: term_profile_def demo_env_def parseDateInput_def)
  have c: "parseDateInput (demo_env\<lparr>today := (2024, 7, 9)\<rparr>) (get_prop term_profile ''birthDate'') = Some (2024, 0, 10)
     \<and> \<not> (isPreterm (demo_env\<lparr>today := (2024, 7, 9)\<rparr>) term_profile
           \<and> parseDateInput (demo_env\<lparr>today := (2024, 7, 9)\<rparr>) (get_prop term_profile ''dueDate'') \<noteq> None)
     \<and> today (demo_env\<lparr>today := (2024, 7, 9)\<rparr>) = (2024, 7, 9)"
    by (simp add: term_profile_def demo_env_def parseDateInput_def)
  show ?thesis
    using chronological_age[of demo_env preterm_no_birth 0 0 0 0 0 0] a
      chronological_age[of demo_env term_profile 2024 0 10 2024 7 10] b
      chronological_age[of "demo_env\<lparr>today := (2024, 7, 9)\<rparr>" term_profile 2024 0 10 2024 7 9] c
    by simp
qed

subsection \<open>Eligibility\<close>


lemma list_age_checks:
  "isFinite (edad_minima e f) \<Longrightarrow>
     food_list_age_ok e M f = js_le (edad_minima e f) (months_num M)
     \<and> recipe_list_age_ok e M f = js_le (edad_minima e f) (months_num M)"
  "edad_minima e f = NaN \<Longrightarrow>
     food_list_age_ok e M f \<and> recipe_list_age_ok e M f
     \<and> \<not> js_le (edad_minima e f) (months_num M)"
  by (cases "edad_minima e f";
      auto simp: food_list_age_ok_def recipe_list_age_ok_def js_gt_def months_num_def)+



subsection \<open>Normalization\<close>

lemma getDefaultState_eq:
  "getDefaultState w =
     (JObj (default_fields (JStr (timeline w (ticks w))) (JStr (timeline w (Suc (ticks w))))),
      w\<lparr>ticks := ticks w + 2\<rparr>)"
  by (simp add: getDefaultState_def nowIso_def default_fields_def)

lemma valid_raw_obj: "valid_raw raw \<Longrightarrow> \<exists>s. raw = JObj s"
  by (cases raw) (auto simp: valid_raw_def)

lemma normalizeState_eq:
  "normalizeState raw w =
     (norm_pure raw (JStr (timeline w (ticks w))) (JStr (timeline w (Suc (ticks w))))
        (JStr (timeline w (ticks w + 2))),
      w\<lparr>ticks := ticks w + (if valid_raw raw then 3 else 2)\<rparr>)"
proof (cases "valid_raw raw")
  case True
  then have "truthy raw" "object_typed raw" "get_prop raw ''version'' = Some (JNum 1)"
    by (auto simp: valid_raw_def object_typed_truthy)
  with True show ?thesis
    by (simp add: normalizeState_def getDefaultState_eq norm_pure_def nowIso_def)
next
  case False
  then have "normalizeState raw w = getDefaultState w"
    by (intro normalizeState_invalid) (auto simp: valid_raw_def)
  with False show ?thesis by (simp add: getDefaultState_eq norm_pure_def)
qed

lemma default_fields_keys:
  "map fst (default_fields c u) =
     [''version'', ''createdAt'', ''updatedAt'', ''diary'', ''allergens'', ''milestones'', ''babyProfile'']"
  by (simp add: default_fields_def)

lemma default_fields_distinct: "distinct (map fst (default_fields c u))"
  by (simp add: default_fields_def)

lemma merge_entries_absorb:
  assumes "distinct (map fst S)" and "map fst S = map fst D @ rest"
    and "\<And>k v. map_of S k = Some v \<Longrightarrow> merge_value (map_of D k) v = v"
  shows "merge_entries D S = S"
proof (rule alist_eqI)
  from assms(1,2) have dis: "set (map fst D) \<inter> set rest = {}" and dD: "distinct (map fst D)"
    by auto
  from dis have "filter (\<lambda>k. k \<notin> set (map fst D)) rest = rest"
    by (auto simp: filter_id_conv)
  then show k: "map fst (merge_entries D S) = map fst S"
    by (simp add: merge_entries_keys[OF assms(1)] assms(2))
  show "distinct (map fst (merge_entries D S))"
    by (rule merge_entries_distinct[OF dD assms(1)])
  fix k assume "k \<in> set (map fst (merge_entries D S))"
  with k have "k \<in> set (map fst S)" by simp
  then obtain v where v: "map_of S k = Some v"
    by (metis map_of_eq_None_iff not_Some_eq set_map)
  with assms(3)[OF v] show "map_of (merge_entries D S) k = map_of S k"
    by (simp add: merge_entries_lookup[OF assms(1)])
qed

lemma default_fields_time_free:
  "k \<noteq> ''createdAt'' \<Longrightarrow> k \<noteq> ''updatedAt'' \<Longrightarrow>
   map_of (default_fields c u) k = default_section k"
  by (simp add: default_fields_def default_section_def)

lemma norm_pure_valid:
  assumes "valid_raw (JObj s)"
  shows "norm_pure (JObj s) c u t =
     JObj (AList.update ''updatedAt'' t
            (AList.update ''version'' (JNum 1) (merge_entries (default_fields c u) s)))"
  using assms by (simp add: norm_pure_def)

lemma update_keys_mem:
  "k \<in> set (map fst al) \<Longrightarrow> map fst (AList.update k v al) = map fst al"
  by (simp add: update_keys_filter)

lemma norm_pure_keys:
  assumes "valid_raw (JObj s)" and "distinct (map fst s)"
    and "norm_pure (JObj s) c u t = JObj nf"
  shows "map fst nf = map fst (default_fields c u)
           @ filter (\<lambda>k. k \<notin> set (map fst (default_fields c u))) (map fst s)"
    and "distinct (map fst nf)"
proof -
  let ?M = "merge_entries (default_fields c u) s"
  let ?V = "AList.update ''version'' (JNum 1) ?M"
  have nf: "nf = AList.update ''updatedAt'' t ?V"
    using assms(3) norm_pure_valid[OF assms(1)] by simp
  have mk: "map fst ?M = map fst (default_fields c u)
           @ filter (\<lambda>k. k \<notin> set (map fst (default_fields c u))) (map fst s)"
    by (rule merge_entries_keys[OF assms(2)])
  have "''version'' \<in> set (map fst (default_fields c u))"
    and "''updatedAt'' \<in> set (map fst (default_fields c u))"
    by (simp_all add: default_fields_keys)
  then have v: "''version'' \<in> set (map fst ?M)" and u: "''updatedAt'' \<in> set (map fst ?M)"
    unfolding mk by simp_all
  have kV: "map fst ?V = map fst ?M" using v by (rule update_keys_mem)
  have "map fst nf = map fst ?V" unfolding nf using u kV by (intro update_keys_mem) simp
  with kV mk show "map fst nf = map fst (default_fields c u)
           @ filter (\<lambda>k. k \<notin> set (map fst (default_fields c u))) (map fst s)"
    by simp
  have "distinct (map fst ?M)"
    by (rule merge_entries_distinct[OF default_fields_distinct assms(2)])
  then show "distinct (map fst nf)"
    unfolding nf by (simp add: distinct_update)
qed

lemma norm_pure_lookup:
  assumes "valid_raw (JObj s)" and "distinct (map fst s)"
    and "norm_pure (JObj s) c u t = JObj nf"
  shows "map_of nf k =
     (if k = ''updatedAt'' then Some t
      else if k = ''version'' then Some (JNum 1)
      else case map_of s k of
             None \<Rightarrow> map_of (default_fields c u) k
           | Some v \<Rightarrow> Some (merge_value (map_of (default_fields c u) k) v))"
proof -
  have nf: "nf = AList.update ''updatedAt'' t
            (AList.update ''version'' (JNum 1) (merge_entries (default_fields c u) s))"
    using assms(3) norm_pure_valid[OF assms(1)] by simp
  have "map_of nf k = ((map_of (merge_entries (default_fields c u) s))
           (''version'' \<mapsto> JNum 1, ''updatedAt'' \<mapsto> t)) k"
    unfolding nf by (simp only: update_conv')
  then show ?thesis
    by (simp add: merge_entries_lookup[OF assms(2)] del: map_of.simps)
qed

lemma norm_pure_obj: "\<exists>nf. norm_pure raw c u t = JObj nf"
proof (cases "valid_raw raw")
  case True
  then obtain s where "raw = JObj s" using valid_raw_obj by blast
  with True show ?thesis by (simp add: norm_pure_def)
next
  case False
  then show ?thesis by (simp add: norm_pure_def)
qed

lemma norm_pure_section:
  assumes "distinct_keys raw" and "k \<noteq> ''version''" and "k \<noteq> ''createdAt''" and "k \<noteq> ''updatedAt''"
  shows "get_prop (norm_pure raw c u t) k = sect raw k"
proof (cases "valid_raw raw")
  case True
  then obtain s where s: "raw = JObj s" using valid_raw_obj by blast
  obtain nf where nf: "norm_pure (JObj s) c u t = JObj nf" using norm_pure_obj by blast
  have d: "distinct (map fst s)" using assms(1) s by simp
  have df: "map_of (default_fields c u) k = default_section k"
    using assms(3,4) by (rule default_fields_time_free)
  show ?thesis
    using True assms(2-4) norm_pure_lookup[OF True[unfolded s] d nf, of k]
    by (simp add: s nf sect_def df split: option.splits)
next
  case False
  have df: "map_of (default_fields c u) k = default_section k"
    using assms(3,4) by (rule default_fields_time_free)
  with False show ?thesis
    by (simp add: norm_pure_def sect_def)
qed

lemma merge_value_nonplain: "\<not> isPlainObject_opt old \<Longrightarrow> merge_value old v = v"
  by (simp add: merge_value_def)

lemma merge_value_self: "distinct_keys v \<Longrightarrow> merge_value (Some v) v = v"
  using mergeDeep_self[of v] by (cases v) (auto simp: merge_value_def)

lemma merge_value_idem:
  assumes "\<And>d. old = Some d \<Longrightarrow> distinct_keys d" and "distinct_keys v"
  shows "merge_value old (merge_value old v) = merge_value old v"
proof (cases "isPlainObject v \<and> isPlainObject_opt old")
  case True
  then obtain d where d: "old = Some d" and pd: "isPlainObject d" by (cases old) auto
  have "mergeDeep d (mergeDeep d v) = mergeDeep d v"
    using assms(1)[OF d] assms(2) by (rule mergeDeep_idem)
  moreover have "isPlainObject (mergeDeep d v)" using True pd by (simp add: mergeDeep_plain)
  ultimately show ?thesis using True d pd by (simp add: merge_value_def)
next
  case False
  then show ?thesis by (auto simp: merge_value_def)
qed

lemma default_section_distinct: "default_section k = Some d \<Longrightarrow> distinct_keys d"
  by (auto simp: default_section_def default_fields_def default_diary_def default_allergens_def
      default_milestones_def default_babyProfile_def split: if_splits)

lemma default_fields_nonplain:
  assumes "\<not> isPlainObject c" and "\<not> isPlainObject u"
    and "k = ''version'' \<or> k = ''createdAt'' \<or> k = ''updatedAt''"
  shows "\<not> isPlainObject_opt (map_of (default_fields c u) k)"
  using assms by (auto simp: default_fields_def)

lemma default_section_None:
  "k \<notin> set (map fst (default_fields c u)) \<Longrightarrow> map_of (default_fields c' u') k = None"
  by (simp add: default_fields_def)

lemma norm_pure_absorbs:
  assumes "distinct_keys raw" and "\<not> isPlainObject c'" and "\<not> isPlainObject u'"
    and "norm_pure raw c u t = JObj nf" and "map_of nf k = Some v"
  shows "merge_value (map_of (default_fields c' u') k) v = v"
proof (cases "k = ''version'' \<or> k = ''createdAt'' \<or> k = ''updatedAt''")
  case True
  then show ?thesis
    using default_fields_nonplain[OF assms(2,3)] by (intro merge_value_nonplain) blast
next
  case False
  then have df: "map_of (default_fields c' u') k = default_section k"
    by (intro default_fields_time_free) auto
  have sec: "sect raw k = Some v"
    using norm_pure_section[OF assms(1), of k c u t] False assms(4,5) by simp
  show ?thesis
  proof (cases "valid_raw raw \<and> get_prop raw k \<noteq> None")
    case True
    then obtain x where x: "get_prop raw k = Some x" by auto
    with True sec have v: "v = merge_value (default_section k) x" by (simp add: sect_def)
    obtain s where s: "raw = JObj s" using True valid_raw_obj by blast
    have "distinct_keys x" using assms(1) x unfolding s by (auto intro: distinct_keys_lookup)
    then show ?thesis unfolding df v
      by (intro merge_value_idem) (auto dest: default_section_distinct)
  next
    case False
    with sec have "default_section k = Some v" by (auto simp: sect_def split: option.splits)
    then show ?thesis unfolding df
      by (auto intro: merge_value_self dest: default_section_distinct)
  qed
qed

lemma norm_pure_valid_raw: "valid_raw (norm_pure raw c u t)"
proof (cases "valid_raw raw")
  case True
  then obtain s where "raw = JObj s" using valid_raw_obj by blast
  with True show ?thesis
    by (simp add: norm_pure_def valid_raw_def update_conv')
next
  case False
  have "valid_raw (JObj (default_fields c u))"
    by (simp add: valid_raw_def default_fields_def)
  with False show ?thesis by (simp add: norm_pure_def)
qed

lemma norm_pure_shape:
  assumes "distinct_keys raw" and "norm_pure raw c u t = JObj nf"
  shows "distinct (map fst nf)"
    and "\<exists>rest. map fst nf = map fst (default_fields c' u') @ rest"
proof -
  show "distinct (map fst nf)"
  proof (cases "valid_raw raw")
    case True
    then obtain s where s: "raw = JObj s" using valid_raw_obj by blast
    with assms(1) have "distinct (map fst s)" by simp
    with True assms(2) s show ?thesis by (auto intro: norm_pure_keys(2))
  next
    case False
    with assms(2) show ?thesis by (auto simp: norm_pure_def default_fields_distinct)
  qed
  show "\<exists>rest. map fst nf = map fst (default_fields c' u') @ rest"
  proof (cases "valid_raw raw")
    case True
    then obtain s where s: "raw = JObj s" using valid_raw_obj by blast
    with assms(1) have "distinct (map fst s)" by simp
    with True assms(2) s norm_pure_keys(1)[of s c u t nf] show ?thesis
      by (simp add: default_fields_keys)
  next
    case False
    with assms(2) show ?thesis by (auto simp: norm_pure_def default_fields_keys)
  qed
qed

lemma norm_pure_twice:
  assumes "distinct_keys raw" and "\<not> isPlainObject c'" and "\<not> isPlainObject u'"
  shows "norm_pure (norm_pure raw c u t) c' u' t' = set_prop (norm_pure raw c u t) ''updatedAt'' t'"
proof -
  obtain nf where nf: "norm_pure raw c u t = JObj nf" using norm_pure_obj by blast
  have v: "valid_raw (JObj nf)" using norm_pure_valid_raw[of raw c u t] nf by simp
  then have ver: "map_of nf ''version'' = Some (JNum 1)" by (simp add: valid_raw_def)
  obtain rest where rest: "map fst nf = map fst (default_fields c' u') @ rest"
    using norm_pure_shape(2)[OF assms(1) nf] by blast
  have ab: "merge_entries (default_fields c' u') nf = nf"
    using norm_pure_shape(1)[OF assms(1) nf] rest
  proof (rule merge_entries_absorb)
    fix k v assume "map_of nf k = Some v"
    then show "merge_value (map_of (default_fields c' u') k) v = v"
      by (rule norm_pure_absorbs[OF assms nf])
  qed
  have "norm_pure (JObj nf) c' u' t' =
          JObj (AList.update ''updatedAt'' t'
            (AList.update ''version'' (JNum 1) (merge_entries (default_fields c' u') nf)))"
    by (rule norm_pure_valid[OF v])
  also have "\<dots> = JObj (AList.update ''updatedAt'' t' nf)"
    using ver by (simp only: ab update_triv)
  finally show ?thesis unfolding nf by simp
qed

subsection \<open>Reading the store\<close>

lemma ensureState_stored:
  assumes "state_item w = Some r"
  shows "ensureState w = normalizeState r w"
  using assms
  by (simp add: ensureState_def migrateLegacyIfNeeded_def readStateFromStorage_def
      normalizeState_eq)

lemma migrate_none:
  "state_item w \<noteq> None \<or> \<not> migratable w \<Longrightarrow> migrateLegacyIfNeeded w = w"
  by (auto simp: migrateLegacyIfNeeded_def migratable_def split: option.splits jsval.splits list.splits)

lemma norm_pure_restamp:
  "set_prop (norm_pure raw c u t) ''updatedAt'' t1 =
     norm_pure raw c (if valid_raw raw then u else t1) t1"
proof (cases "valid_raw raw")
  case True
  then obtain s where "raw = JObj s" using valid_raw_obj by blast
  with True show ?thesis by (simp add: norm_pure_def)
next
  case False
  then show ?thesis by (simp add: norm_pure_def default_fields_def)
qed

lemma set_prop_twice: "set_prop (set_prop v k a) k b = set_prop v k b"
  by (cases v) auto

lemma norm_pure_null: "norm_pure JNull c u t = JObj (default_fields c u)"
  by (simp add: norm_pure_def valid_raw_def)

lemma ensureState_fresh:
  assumes "state_item w = None" and "\<not> migratable w"
  shows "ensureState w =
     (norm_pure JNull (JStr (timeline w (ticks w))) (JStr (timeline w (Suc (ticks w))))
        (JStr (timeline w (ticks w + 2))),
      w\<lparr>ticks := ticks w + 5,
        state_item := Some (set_prop (norm_pure JNull (JStr (timeline w (ticks w)))
                 (JStr (timeline w (Suc (ticks w)))) (JStr (timeline w (ticks w + 2))))
                 ''updatedAt'' (JStr (timeline w (ticks w + 4))))\<rparr>)"
proof -
  let ?S = "norm_pure JNull (JStr (timeline w (ticks w))) (JStr (timeline w (Suc (ticks w))))
              (JStr (timeline w (ticks w + 2)))"
  have m: "migrateLegacyIfNeeded w = w" using assms by (simp add: migrate_none)
  have "\<not> valid_raw JNull" by (simp add: valid_raw_def)
  then have r: "readStateFromStorage w = (?S, w\<lparr>ticks := ticks w + 2\<rparr>)"
    using assms(1) by (simp add: readStateFromStorage_def normalizeState_eq)
  have v: "valid_raw ?S" by (rule norm_pure_valid_raw)
  have "normalizeState ?S (w\<lparr>ticks := ticks w + 2\<rparr>) =
          (set_prop ?S ''updatedAt'' (JStr (timeline w (ticks w + 4))),
           w\<lparr>ticks := ticks w + 5\<rparr>)"
    using v by (simp add: normalizeState_eq norm_pure_twice eval_nat_numeral)
  then show ?thesis
    using assms(1) m r by (simp add: ensureState_def writeStateToStorage_def)
qed

lemma migrate_legacy:
  assumes "state_item w = None" and "legacy_item w = Some (JArr (e # es))"
  shows "migrateLegacyIfNeeded w =
           w\<lparr>ticks := ticks w + 5, state_item := Some (migrated_state w (e # es))\<rparr>"
  using assms
  by (simp add: store_defs migrated_state_def eval_nat_numeral)

lemma migrated_state_distinct: "distinct_keys (migrated_state w es)"
  by (simp add: migrated_state_def default_allergens_def default_milestones_def
      default_babyProfile_def)

lemma ensureState_norm:
  assumes "wf_world w"
  shows "\<exists>r0 c u t. distinct_keys r0
           \<and> fst (ensureState w) = norm_pure r0 (JStr c) (JStr u) (JStr t)
           \<and> timeline (snd (ensureState w)) = timeline w
           \<and> state_item (snd (ensureState w)) \<noteq> None"
proof (cases "state_item w")
  case (Some r)
  with assms have "distinct_keys r" by (simp add: wf_world_def)
  with Some show ?thesis
    by (auto simp: ensureState_stored normalizeState_eq)
next
  case None
  show ?thesis
  proof (cases "migratable w")
    case False
    have "distinct_keys JNull" by simp
    then show ?thesis
      unfolding ensureState_fresh[OF None False] by (intro exI conjI) simp_all
  next
    case True
    then obtain e es where l: "legacy_item w = Some (JArr (e # es))"
      by (auto simp: migratable_def split: option.splits jsval.splits list.splits)
    let ?w = "w\<lparr>ticks := ticks w + 5, state_item := Some (migrated_state w (e # es))\<rparr>"
    have "ensureState w = normalizeState (migrated_state w (e # es)) ?w"
      using migrate_legacy[OF None l]
      by (simp add: ensureState_def readStateFromStorage_def normalizeState_eq)
    then show ?thesis
      using migrated_state_distinct[of w "e # es"]
      by (auto simp: normalizeState_eq)
  qed
qed

lemma writeStateToStorage_eq:
  "writeStateToStorage s w =
     (fst (normalizeState s w), (snd (normalizeState s w))\<lparr>state_item := Some (fst (normalizeState s w))\<rparr>)"
  by (simp add: writeStateToStorage_def case_prod_beta)

lemma import_of_normalized:
  assumes "distinct_keys r0" and "S = norm_pure r0 (JStr c) (JStr u) (JStr t)"
    and "validateBackupState S = None"
  shows "fst (importState S w1) =
           Inr (set_prop S ''updatedAt'' (JStr (timeline w1 (ticks w1 + 5))))"
proof -
  let ?t1 = "JStr (timeline w1 (ticks w1 + 2))"
  let ?N1 = "set_prop S ''updatedAt'' ?t1"
  let ?w1' = "w1\<lparr>ticks := ticks w1 + 3, state_item := Some ?N1\<rparr>"
  have v: "valid_raw S" unfolding assms(2) by (rule norm_pure_valid_raw)
  have n1: "normalizeState S w1 = (?N1, w1\<lparr>ticks := ticks w1 + 3\<rparr>)"
    using v assms(1) by (simp add: normalizeState_eq assms(2) norm_pure_twice)
  then have wr: "writeStateToStorage S w1 = (?N1, ?w1')"
    by (simp add: writeStateToStorage_eq)
  have re: "?N1 = norm_pure r0 (JStr c) (if valid_raw r0 then JStr u else ?t1) ?t1"
    unfolding assms(2) by (rule norm_pure_restamp)
  have "fst (ensureState ?w1') = fst (normalizeState ?N1 ?w1')"
    by (simp add: ensureState_stored)
  also have "\<dots> = norm_pure ?N1 (JStr (timeline w1 (ticks w1 + 3)))
                      (JStr (timeline w1 (ticks w1 + 4))) (JStr (timeline w1 (ticks w1 + 5)))"
    by (simp add: normalizeState_eq eval_nat_numeral)
  also have "\<dots> = set_prop ?N1 ''updatedAt'' (JStr (timeline w1 (ticks w1 + 5)))"
    unfolding re using assms(1) by (intro norm_pure_twice) simp_all
  also have "\<dots> = set_prop S ''updatedAt'' (JStr (timeline w1 (ticks w1 + 5)))"
    by (rule set_prop_twice)
  finally show ?thesis
    using assms(3) wr by (simp add: importState_def case_prod_beta)
qed

subsection \<open>Export, then import\<close>

text \<open>
  Claim C7, amended. In a well-formed world, when the exported document passes the backup
  validation, importing it returns the exported state with \<open>updatedAt\<close> stamped anew
  (the clock reading of the import's last normalization) and every other property as it
  was, in the same order.
\<close>

theorem export_import_roundtrip:
  assumes "wf_world w" and "exportState w = (S, w1)" and "validateBackupState S = None"
  shows "fst (export_then_import w) =
           Inr (set_prop S ''updatedAt'' (JStr (timeline w (ticks w1 + 5))))"
proof -
  from ensureState_norm[OF assms(1)] assms(2)
  obtain r0 c u t where "distinct_keys r0" "S = norm_pure r0 (JStr c) (JStr u) (JStr t)"
    "timeline w1 = timeline w"
    by (auto simp: exportState_def)
  with import_of_normalized[OF this(1,2) assms(3), of w1] assms(2)
  show ?thesis by (simp add: export_then_import_def)
qed

theorem export_import_roundtrip_witness:
  "fst (export_then_import (demo_world [])) =
     Inr (set_prop (fst (exportState (demo_world []))) ''updatedAt'' (JStr ''t1''))"
proof -
  have wf: "wf_world (demo_world [])"
    by (simp add: wf_world_def demo_world_def)
  have ex: "exportState (demo_world []) =
      (fst (exportState (demo_world [])), snd (exportState (demo_world [])))"
    by simp
  have va: "validateBackupState (fst (exportState (demo_world []))) = None"
    by (simp add: demo_world_def store_defs)
  have ti: "timeline (demo_world []) (ticks (snd (exportState (demo_world []))) + 5) = ''t1''"
    by (simp add: demo_world_def store_defs)
  show ?thesis
    using export_import_roundtrip[OF wf ex va] ti by simp
qed

text \<open>
  The state read back differs from the exported one: every normalization stamps
  \<open>updatedAt\<close> with the clock, and the clock has moved between export and import.
\<close>

theorem export_import_counterexample:
  "get_prop (fst (exportState (demo_world []))) ''updatedAt'' = Some (JStr ''t0'')
   \<and> fst (export_then_import (demo_world [])) =
       Inr (set_prop (fst (exportState (demo_world []))) ''updatedAt'' (JStr ''t1''))
   \<and> fst (export_then_import (demo_world [])) \<noteq> Inr (fst (exportState (demo_world [])))"
  by (simp add: export_then_import_def demo_world_def store_defs)

subsection \<open>Sections of a normalized state\<close>

lemma distinct_keysI:
  assumes "distinct (map fst fs)" and "\<And>k v. map_of fs k = Some v \<Longrightarrow> distinct_keys v"
  shows "distinct_keys (JObj fs)"
proof -
  have "\<And>p. p \<in> set fs \<Longrightarrow> distinct_keys (snd p)"
  proof -
    fix p assume "p \<in> set fs"
    then have "map_of fs (fst p) = Some (snd p)"
      by (intro map_of_is_SomeI[OF assms(1)]) simp
    then show "distinct_keys (snd p)" by (rule assms(2))
  qed
  with assms(1) show ?thesis by (simp add: list_all_iff)
qed

lemma merge_value_cases:
  "merge_value old v = v
   \<or> (\<exists>d. old = Some d \<and> isPlainObject d \<and> isPlainObject v \<and> merge_value old v = mergeDeep d v)"
  by (cases old) (auto simp: merge_value_def)

lemma mergeDeep_distinct:
  "distinct_keys t \<Longrightarrow> distinct_keys s \<Longrightarrow> distinct_keys (mergeDeep t s)"
proof (induction s arbitrary: t)
  case (JObj sfs)
  show ?case
  proof (cases t)
    case (JObj tfs)
    have ds: "distinct (map fst sfs)" using JObj.prems(2) by simp
    have dt: "distinct (map fst tfs)" using JObj.prems(1) JObj by simp
    have "distinct_keys (JObj (merge_entries tfs sfs))"
    proof (rule distinct_keysI)
      show "distinct (map fst (merge_entries tfs sfs))"
        by (rule merge_entries_distinct[OF dt ds])
      fix k v assume a: "map_of (merge_entries tfs sfs) k = Some v"
      show "distinct_keys v"
      proof (cases "map_of sfs k")
        case None
        with a have "map_of tfs k = Some v" by (simp add: merge_entries_lookup[OF ds])
        with JObj.prems(1) JObj show ?thesis by (auto intro: distinct_keys_lookup)
      next
        case (Some x)
        with a have v: "v = merge_value (map_of tfs k) x" by (simp add: merge_entries_lookup[OF ds])
        have dx: "distinct_keys x" using JObj.prems(2) Some by (rule distinct_keys_lookup)
        have kx: "(k, x) \<in> set sfs" using Some by (rule map_of_SomeD)
        from merge_value_cases[of "map_of tfs k" x] show ?thesis
        proof
          assume "merge_value (map_of tfs k) x = x"
          with v dx show ?thesis by simp
        next
          assume "\<exists>d. map_of tfs k = Some d \<and> isPlainObject d \<and> isPlainObject x
                    \<and> merge_value (map_of tfs k) x = mergeDeep d x"
          then obtain d where d: "map_of tfs k = Some d"
            and m: "merge_value (map_of tfs k) x = mergeDeep d x" by blast
          have "distinct_keys d" using JObj.prems(1) JObj d by (auto intro: distinct_keys_lookup)
          then have "distinct_keys (mergeDeep d x)"
            using JObj.IH[of "(k, x)" x d] kx dx by auto
          with v m show ?thesis by simp
        qed
      qed
    qed
    with JObj show ?thesis by simp
  qed (use JObj.prems in simp_all)
qed simp_all

lemma merge_value_distinct:
  assumes "\<And>d. old = Some d \<Longrightarrow> distinct_keys d" and "distinct_keys v"
  shows "distinct_keys (merge_value old v)"
  using merge_value_cases[of old v] assms by (auto intro: mergeDeep_distinct)






lemma normalizeState_world:
  "state_item (snd (normalizeState raw w)) = state_item w
   \<and> legacy_item (snd (normalizeState raw w)) = legacy_item w
   \<and> timeline (snd (normalizeState raw w)) = timeline w"
  by (simp add: normalizeState_eq)




subsection \<open>Upsert of a diary entry\<close>

lemma merge_value_array [simp]: "merge_value old (JArr xs) = JArr xs"
  by (simp add: merge_value_def)






lemmas app_defs = day_save_def ensureCalendarAllowedOrExplain_def milestones_isComplete_def
  isComplete_of_def getProfileSafeAgeMonths_def getSafeAgeMonths_def parseDateInput_def
  isPreterm_def find_food_def getFoodIndex_def edad_minima_def build_entry_def idEl_value_def
  upsertEntry_def entries_of_def diary_payload_def same_id_def trim_def is_space_def
  or_default_def months_num_def js_gt_def unmet_milestones_def milestone_fields_def





subsection \<open>Setting an allergen's status\<close>





subsection \<open>Running the operations on the concrete worlds\<close>







subsection \<open>The save preconditions\<close>











end
